theory Spec2Isabelle
  imports Main "HOL-Library.Monad_Syntax"
begin

section \<open>The intrusive doubly linked list of package ilist\<close>

text \<open>
  The Go package keeps the links of a list inside the linked objects. A node is
  addressed by a pointer \<^verbatim>\<open>*T\<close>, which is \<^verbatim>\<open>nil\<close> or the address of a node; a list is
  addressed by a pointer \<^verbatim>\<open>*List\<close>. Pointers are modelled as \<open>'a option\<close>
  (\<open>None\<close> is \<^verbatim>\<open>nil\<close>), the memory as a store holding the \<^verbatim>\<open>List\<close> structs
  and the \<^verbatim>\<open>Entry\<close> structs of the nodes. An operation takes the store and returns
  the new one; a \<^verbatim>\<open>nil\<close> dereference, which panics in Go, is the result \<open>None\<close>.
  The four methods of the \<^verbatim>\<open>Linker\<close> interface are those of \<^verbatim>\<open>Entry\<close>, the
  package's own implementation: plain reads and writes of the two link fields (the
  fields \<^verbatim>\<open>next\<close> and \<^verbatim>\<open>prev\<close> are called \<open>e_next\<close> and \<open>e_prev\<close> here).
\<close>

subsection \<open>Data\<close>

text \<open>\<^verbatim>\<open>type Entry struct { next *T; prev *T }\<close>\<close>

record 'a Entry =
  e_next :: "'a option"
  e_prev :: "'a option"

text \<open>\<^verbatim>\<open>type List struct { head *T; tail *T }\<close>\<close>

record 'a List =
  head :: "'a option"
  tail :: "'a option"

text \<open>
  The store: the \<^verbatim>\<open>List\<close> struct at every list address and the \<^verbatim>\<open>Entry\<close>
  embedded in the node at every node address.
\<close>

record ('l, 'a) mem =
  listv :: "'l \<Rightarrow> 'a List"
  entry :: "'a \<Rightarrow> 'a Entry"

subsection \<open>The methods of Entry\<close>

definition Next :: "'a option \<Rightarrow> ('l, 'a) mem \<Rightarrow> 'a option option" where
  "Next e s = (case e of None \<Rightarrow> None | Some a \<Rightarrow> Some (e_next (entry s a)))"

definition Prev :: "'a option \<Rightarrow> ('l, 'a) mem \<Rightarrow> 'a option option" where
  "Prev e s = (case e of None \<Rightarrow> None | Some a \<Rightarrow> Some (e_prev (entry s a)))"

definition SetNext :: "'a option \<Rightarrow> 'a option \<Rightarrow> ('l, 'a) mem \<Rightarrow> ('l, 'a) mem option" where
  "SetNext e elem s = (case e of None \<Rightarrow> None
     | Some a \<Rightarrow> Some (s\<lparr>entry := (entry s)(a := (entry s a)\<lparr>e_next := elem\<rparr>)\<rparr>))"

definition SetPrev :: "'a option \<Rightarrow> 'a option \<Rightarrow> ('l, 'a) mem \<Rightarrow> ('l, 'a) mem option" where
  "SetPrev e elem s = (case e of None \<Rightarrow> None
     | Some a \<Rightarrow> Some (s\<lparr>entry := (entry s)(a := (entry s a)\<lparr>e_prev := elem\<rparr>)\<rparr>))"

subsection \<open>Reading and writing the fields of a List through its pointer\<close>

definition get_head :: "'l option \<Rightarrow> ('l, 'a) mem \<Rightarrow> 'a option option" where
  "get_head l s = (case l of None \<Rightarrow> None | Some x \<Rightarrow> Some (head (listv s x)))"

definition get_tail :: "'l option \<Rightarrow> ('l, 'a) mem \<Rightarrow> 'a option option" where
  "get_tail l s = (case l of None \<Rightarrow> None | Some x \<Rightarrow> Some (tail (listv s x)))"

definition set_head :: "'l option \<Rightarrow> 'a option \<Rightarrow> ('l, 'a) mem \<Rightarrow> ('l, 'a) mem option" where
  "set_head l v s = (case l of None \<Rightarrow> None
     | Some x \<Rightarrow> Some (s\<lparr>listv := (listv s)(x := (listv s x)\<lparr>head := v\<rparr>)\<rparr>))"

definition set_tail :: "'l option \<Rightarrow> 'a option \<Rightarrow> ('l, 'a) mem \<Rightarrow> ('l, 'a) mem option" where
  "set_tail l v s = (case l of None \<Rightarrow> None
     | Some x \<Rightarrow> Some (s\<lparr>listv := (listv s)(x := (listv s x)\<lparr>tail := v\<rparr>)\<rparr>))"

subsection \<open>The methods of List\<close>

definition Reset :: "'l option \<Rightarrow> ('l, 'a) mem \<Rightarrow> ('l, 'a) mem option" where
  "Reset l s = do {
     s \<leftarrow> set_head l None s;
     set_tail l None s
   }"

definition Empty :: "'l option \<Rightarrow> ('l, 'a) mem \<Rightarrow> bool option" where
  "Empty l s = do { h \<leftarrow> get_head l s; Some (h = None) }"

definition Front :: "'l option \<Rightarrow> ('l, 'a) mem \<Rightarrow> 'a option option" where
  "Front l s = get_head l s"

definition Back :: "'l option \<Rightarrow> ('l, 'a) mem \<Rightarrow> 'a option option" where
  "Back l s = get_tail l s"

text \<open>
  The loop of \<^verbatim>\<open>Len\<close>: \<^verbatim>\<open>for e := l.Front(); e != nil; e = U(e).Next() { count++ }\<close>.
  On a chain of next links that never reaches \<^verbatim>\<open>nil\<close> the loop does not return,
  which is the value \<open>None\<close> here. The counter only grows from 0 by one per node, so
  it stays below the number of nodes and Go's \<^verbatim>\<open>int\<close> cannot overflow.
\<close>

partial_function (option) Len_loop :: "'a option \<Rightarrow> nat \<Rightarrow> ('l, 'a) mem \<Rightarrow> nat option" where
  "Len_loop e count s =
     (if e \<noteq> None then do { e' \<leftarrow> Next e s; Len_loop e' (count + 1) s }
      else Some count)"

definition Len :: "'l option \<Rightarrow> ('l, 'a) mem \<Rightarrow> nat option" where
  "Len l s = do { e \<leftarrow> Front l s; Len_loop e 0 s }"

definition PushFront :: "'l option \<Rightarrow> 'a option \<Rightarrow> ('l, 'a) mem \<Rightarrow> ('l, 'a) mem option" where
  "PushFront l e s = do {
     h \<leftarrow> get_head l s;
     s \<leftarrow> SetNext e h s;
     s \<leftarrow> SetPrev e None s;
     h \<leftarrow> get_head l s;
     s \<leftarrow> (if h \<noteq> None then SetPrev h e s else set_tail l e s);
     set_head l e s
   }"

definition PushFrontList :: "'l option \<Rightarrow> 'l option \<Rightarrow> ('l, 'a) mem \<Rightarrow> ('l, 'a) mem option" where
  "PushFrontList l m s = do {
     lh \<leftarrow> get_head l s;
     s \<leftarrow> (if lh = None then do {
            mh \<leftarrow> get_head m s;
            s \<leftarrow> set_head l mh s;
            mt \<leftarrow> get_tail m s;
            set_tail l mt s
          } else do {
            mh \<leftarrow> get_head m s;
            if mh \<noteq> None then do {
              lh \<leftarrow> get_head l s;
              mt \<leftarrow> get_tail m s;
              s \<leftarrow> SetPrev lh mt s;
              mt \<leftarrow> get_tail m s;
              lh \<leftarrow> get_head l s;
              s \<leftarrow> SetNext mt lh s;
              mh \<leftarrow> get_head m s;
              set_head l mh s
            } else Some s
          });
     s \<leftarrow> set_head m None s;
     set_tail m None s
   }"

definition PushBack :: "'l option \<Rightarrow> 'a option \<Rightarrow> ('l, 'a) mem \<Rightarrow> ('l, 'a) mem option" where
  "PushBack l e s = do {
     s \<leftarrow> SetNext e None s;
     t \<leftarrow> get_tail l s;
     s \<leftarrow> SetPrev e t s;
     t \<leftarrow> get_tail l s;
     s \<leftarrow> (if t \<noteq> None then SetNext t e s else set_head l e s);
     set_tail l e s
   }"

definition PushBackList :: "'l option \<Rightarrow> 'l option \<Rightarrow> ('l, 'a) mem \<Rightarrow> ('l, 'a) mem option" where
  "PushBackList l m s = do {
     lh \<leftarrow> get_head l s;
     s \<leftarrow> (if lh = None then do {
            mh \<leftarrow> get_head m s;
            s \<leftarrow> set_head l mh s;
            mt \<leftarrow> get_tail m s;
            set_tail l mt s
          } else do {
            mh \<leftarrow> get_head m s;
            if mh \<noteq> None then do {
              lt \<leftarrow> get_tail l s;
              mh \<leftarrow> get_head m s;
              s \<leftarrow> SetNext lt mh s;
              mh \<leftarrow> get_head m s;
              lt \<leftarrow> get_tail l s;
              s \<leftarrow> SetPrev mh lt s;
              mt \<leftarrow> get_tail m s;
              set_tail l mt s
            } else Some s
          });
     s \<leftarrow> set_head m None s;
     set_tail m None s
   }"

definition InsertAfter :: "'l option \<Rightarrow> 'a option \<Rightarrow> 'a option \<Rightarrow> ('l, 'a) mem \<Rightarrow> ('l, 'a) mem option" where
  "InsertAfter l b e s = do {
     a \<leftarrow> Next b s;
     s \<leftarrow> SetNext e a s;
     s \<leftarrow> SetPrev e b s;
     s \<leftarrow> SetNext b e s;
     if a \<noteq> None then SetPrev a e s else set_tail l e s
   }"

definition InsertBefore :: "'l option \<Rightarrow> 'a option \<Rightarrow> 'a option \<Rightarrow> ('l, 'a) mem \<Rightarrow> ('l, 'a) mem option" where
  "InsertBefore l a e s = do {
     b \<leftarrow> Prev a s;
     s \<leftarrow> SetNext e a s;
     s \<leftarrow> SetPrev e b s;
     s \<leftarrow> SetPrev a e s;
     if b \<noteq> None then SetNext b e s else set_head l e s
   }"

definition Remove :: "'l option \<Rightarrow> 'a option \<Rightarrow> ('l, 'a) mem \<Rightarrow> ('l, 'a) mem option" where
  "Remove l e s = do {
     prev \<leftarrow> Prev e s;
     next \<leftarrow> Next e s;
     s \<leftarrow> (if prev \<noteq> None then SetNext prev next s
          else do {
            h \<leftarrow> get_head l s;
            if h = e then set_head l next s else Some s
          });
     s \<leftarrow> (if next \<noteq> None then SetPrev next prev s
          else do {
            t \<leftarrow> get_tail l s;
            if t = e then set_tail l prev s else Some s
          });
     s \<leftarrow> SetNext e None s;
     SetPrev e None s
   }"


subsection \<open>The client loops of the round trip\<close>

text \<open>
  Pushing nodes to the back in order:
  \<^verbatim>\<open>for _, e := range es { l.PushBack(e) }\<close>.
\<close>

fun push_all :: "'l option \<Rightarrow> 'a option list \<Rightarrow> ('l, 'a) mem \<Rightarrow> ('l, 'a) mem option" where
  "push_all l [] s = Some s"
| "push_all l (e # es) s = do { s \<leftarrow> PushBack l e s; push_all l es s }"

text \<open>
  Taking the front and removing it until the list is empty, collecting the nodes:
  \<^verbatim>\<open>for e := l.Front(); e != nil; e = l.Front() { out = append(out, e); l.Remove(e) }\<close>.
  A loop that never finds the list empty is the value \<open>None\<close>.
\<close>

partial_function (option) drain ::
  "'l option \<Rightarrow> 'a option list \<Rightarrow> ('l, 'a) mem \<Rightarrow> ('a option list \<times> ('l, 'a) mem) option" where
  "drain l out s = do {
     e \<leftarrow> Front l s;
     if e \<noteq> None then do { s \<leftarrow> Remove l e s; drain l (out @ [e]) s }
     else Some (out, s)
   }"

subsection \<open>The invariants of a list\<close>

text \<open>The next links and the prev links of all nodes, as functions on addresses.\<close>

definition nexts :: "('a \<Rightarrow> 'a Entry) \<Rightarrow> 'a \<Rightarrow> 'a option" where
  "nexts h = (\<lambda>a. e_next (h a))"

definition prevs :: "('a \<Rightarrow> 'a Entry) \<Rightarrow> 'a \<Rightarrow> 'a option" where
  "prevs h = (\<lambda>a. e_prev (h a))"

text \<open>
  \<open>path f p xs q\<close>: starting at pointer \<open>p\<close> and following the link \<open>f\<close>, the walk
  visits the nodes \<open>xs\<close> in this order and then stands at \<open>q\<close>.
\<close>

fun path :: "('a \<Rightarrow> 'a option) \<Rightarrow> 'a option \<Rightarrow> 'a list \<Rightarrow> 'a option \<Rightarrow> bool" where
  "path f p [] q = (p = q)"
| "path f p (x # xs) q = (p = Some x \<and> path f (f x) xs q)"

text \<open>
  \<open>dll s l xs\<close>: in store \<open>s\<close> the list at \<open>l\<close> is a well-formed doubly linked chain
  holding exactly the nodes \<open>xs\<close>, front to back. The walk over the next links from
  \<open>head\<close> visits \<open>xs\<close> and ends at \<^verbatim>\<open>nil\<close>, the walk over the prev links from
  \<open>tail\<close> visits the same nodes in reverse and ends at \<^verbatim>\<open>nil\<close>, and no node occurs
  twice. That a node belongs to at most one list at a time is, for two lists with the
  nodes \<open>xs\<close> and \<open>ys\<close>, the condition \<open>set xs \<inter> set ys = {}\<close>.
\<close>

definition dll :: "('l, 'a) mem \<Rightarrow> 'l \<Rightarrow> 'a list \<Rightarrow> bool" where
  "dll s l xs = (distinct xs
     \<and> path (nexts (entry s)) (head (listv s l)) xs None
     \<and> path (prevs (entry s)) (tail (listv s l)) (rev xs) None)"

subsection \<open>Example stores\<close>

text \<open>The zero store: every list is the zero value and every link is \<^verbatim>\<open>nil\<close>.\<close>

definition zero_store :: "(nat, nat) mem" where
  "zero_store = \<lparr>listv = (\<lambda>_. \<lparr>head = None, tail = None\<rparr>),
                 entry = (\<lambda>_. \<lparr>e_next = None, e_prev = None\<rparr>)\<rparr>"

text \<open>
  List 0 holds the nodes 1, 2, 3 and list 7 holds the nodes 4, 5; the nodes 8 and 9
  are in no list, and node 9 carries stale links.
\<close>

definition ex_store :: "(nat, nat) mem" where
  "ex_store = \<lparr>listv = (\<lambda>_. \<lparr>head = None, tail = None\<rparr>)
                  (0 := \<lparr>head = Some 1, tail = Some 3\<rparr>,
                   7 := \<lparr>head = Some 4, tail = Some 5\<rparr>),
               entry = (\<lambda>_. \<lparr>e_next = None, e_prev = None\<rparr>)
                  (1 := \<lparr>e_next = Some 2, e_prev = None\<rparr>,
                   2 := \<lparr>e_next = Some 3, e_prev = Some 1\<rparr>,
                   3 := \<lparr>e_next = None, e_prev = Some 2\<rparr>,
                   4 := \<lparr>e_next = Some 5, e_prev = None\<rparr>,
                   5 := \<lparr>e_next = None, e_prev = Some 4\<rparr>,
                   9 := \<lparr>e_next = Some 2, e_prev = Some 3\<rparr>)\<rparr>"

text \<open>
  A store that breaks the rule that a node belongs to at most one list: the lists 0
  and 7 both hold node 1, and each of them is well-formed by itself.
\<close>

definition shared_store :: "(nat, nat) mem" where
  "shared_store = \<lparr>listv = (\<lambda>_. \<lparr>head = None, tail = None\<rparr>)
                      (0 := \<lparr>head = Some 1, tail = Some 1\<rparr>,
                       7 := \<lparr>head = Some 1, tail = Some 1\<rparr>),
                   entry = (\<lambda>_. \<lparr>e_next = None, e_prev = None\<rparr>)\<rparr>"

section \<open>Properties\<close>

subsection \<open>Walks along links\<close>

lemmas prim_defs = Next_def Prev_def SetNext_def SetPrev_def get_head_def get_tail_def
  set_head_def set_tail_def

lemma path_append_Cons [simp]:
  "path f p (xs @ y # ys) q = (path f p xs (Some y) \<and> path f (f y) ys q)"
  by (induction xs arbitrary: p) auto

lemma path_snoc [simp]: "path f p (xs @ [y]) q = (path f p xs (Some y) \<and> f y = q)"
  using path_append_Cons [of f p xs y "[]" q] by auto

lemma path_upd [simp]: "a \<notin> set xs \<Longrightarrow> path (f(a := v)) p xs q = path f p xs q"
  by (induction xs arbitrary: p) auto

lemma nexts_apply [simp]: "nexts h a = e_next (h a)"
  by (simp add: nexts_def)

lemma prevs_apply [simp]: "prevs h a = e_prev (h a)"
  by (simp add: prevs_def)

lemma nexts_upd [simp]: "nexts (h(a := r)) = (nexts h)(a := e_next r)"
  by (rule ext) simp

lemma prevs_upd [simp]: "prevs (h(a := r)) = (prevs h)(a := e_prev r)"
  by (rule ext) simp

lemma path_Nil_start: "path f None xs q \<Longrightarrow> xs = [] \<and> q = None"
  by (cases xs) auto

lemma dll_Nil: "dll s l [] = (head (listv s l) = None \<and> tail (listv s l) = None)"
  by (simp add: dll_def)

lemma dll_head: "dll s l xs \<Longrightarrow> head (listv s l) = (if xs = [] then None else Some (hd xs))"
  by (cases xs) (auto simp: dll_def)

lemma dll_tail: "dll s l xs \<Longrightarrow> tail (listv s l) = (if xs = [] then None else Some (last xs))"
  by (cases xs rule: rev_cases) (auto simp: dll_def)

text \<open>
  The invariants of the data model, read off a well-formed chain: \<open>head\<close> is absent
  iff \<open>tail\<close> is absent iff the list is empty; the prev link of \<open>head\<close> and the
  next link of \<open>tail\<close> are absent; and a next link from a member \<open>a\<close> to \<open>b\<close> is
  matched by the prev link from \<open>b\<close> to \<open>a\<close>, and conversely.
\<close>

lemma dll_empty_iff:
  "dll s l xs \<Longrightarrow> (head (listv s l) = None) = (xs = []) \<and> (tail (listv s l) = None) = (xs = [])"
  by (simp add: dll_head dll_tail)

lemma dll_head_prev: "dll s l xs \<Longrightarrow> head (listv s l) = Some a \<Longrightarrow> e_prev (entry s a) = None"
  by (cases xs) (auto simp: dll_def)

lemma dll_tail_next: "dll s l xs \<Longrightarrow> tail (listv s l) = Some a \<Longrightarrow> e_next (entry s a) = None"
  by (cases xs rule: rev_cases) (auto simp: dll_def)

lemma dll_next_prev:
  assumes "dll s l xs" "a \<in> set xs" "e_next (entry s a) = Some b"
  shows "b \<in> set xs \<and> e_prev (entry s b) = Some a"
proof -
  from assms(2) obtain as cs where xs: "xs = as @ a # cs"
    by (auto simp: in_set_conv_decomp)
  with assms(1,3) show ?thesis
    by (cases cs) (auto simp: dll_def)
qed

lemma dll_prev_next:
  assumes "dll s l xs" "b \<in> set xs" "e_prev (entry s b) = Some a"
  shows "a \<in> set xs \<and> e_next (entry s a) = Some b"
proof -
  from assms(2) obtain as cs where xs: "xs = as @ b # cs"
    by (auto simp: in_set_conv_decomp)
  with assms(1,3) show ?thesis
    by (cases as rule: rev_cases) (auto simp: dll_def)
qed

subsection \<open>The length loop\<close>

lemma Len_loop_path:
  "path (nexts (entry s)) p xs None \<Longrightarrow> Len_loop p n s = Some (n + length xs)"
proof (induction xs arbitrary: p n)
  case Nil
  then show ?case by (simp add: Len_loop.simps)
next
  case (Cons x xs)
  from Cons.prems have p: "p = Some x" and rest: "path (nexts (entry s)) (nexts (entry s) x) xs None"
    by (simp_all del: nexts_apply)
  have "Len_loop p n s = Len_loop (nexts (entry s) x) (n + 1) s"
    by (subst Len_loop.simps) (simp add: p Next_def)
  with Cons.IH [OF rest, of "n + 1"] show ?case by simp
qed

lemma Len_dll: "dll s l xs \<Longrightarrow> Len (Some l) s = Some (length xs)"
  using Len_loop_path [of s "head (listv s l)" xs 0]
  by (simp add: dll_def Len_def Front_def get_head_def)

subsection \<open>Every operation on a well-formed chain\<close>

lemma Reset_dll: "\<exists>s'. Reset (Some l) s = Some s' \<and> dll s' l []"
  by (simp add: Reset_def prim_defs dll_def)

lemma PushFront_dll:
  assumes "dll s l xs" "e \<notin> set xs"
  shows "\<exists>s'. PushFront (Some l) (Some e) s = Some s' \<and> dll s' l (e # xs)"
  using assms
  by (cases xs) (auto simp: PushFront_def prim_defs dll_def)

lemma PushBack_dll:
  assumes "dll s l xs" "e \<notin> set xs"
  shows "\<exists>s'. PushBack (Some l) (Some e) s = Some s' \<and> dll s' l (xs @ [e])"
  using assms
  by (cases xs rule: rev_cases) (auto simp: PushBack_def prim_defs dll_def)

lemma InsertAfter_dll:
  assumes "dll s l (as @ b # cs)" "e \<notin> set (as @ b # cs)"
  shows "\<exists>s'. InsertAfter (Some l) (Some b) (Some e) s = Some s' \<and> dll s' l (as @ b # e # cs)"
  using assms
  by (cases cs) (auto simp: InsertAfter_def prim_defs dll_def)

lemma InsertBefore_dll:
  assumes "dll s l (as @ a # cs)" "e \<notin> set (as @ a # cs)"
  shows "\<exists>s'. InsertBefore (Some l) (Some a) (Some e) s = Some s' \<and> dll s' l (as @ e # a # cs)"
  using assms
  by (cases as rule: rev_cases) (auto simp: InsertBefore_def prim_defs dll_def)

lemma Remove_dll:
  assumes "dll s l (as @ e # cs)"
  shows "\<exists>s'. Remove (Some l) (Some e) s = Some s' \<and> dll s' l (as @ cs)"
  using assms
  by (cases as rule: rev_cases; cases cs) (auto simp: Remove_def prim_defs dll_def)

lemma PushFrontList_dll:
  assumes "dll s l xs" "dll s m ys" "m \<noteq> l" "set xs \<inter> set ys = {}"
  shows "\<exists>s'. PushFrontList (Some l) (Some m) s = Some s' \<and> dll s' l (ys @ xs) \<and> dll s' m []"
  using assms dll_head [OF assms(1)] dll_tail [OF assms(1)] dll_head [OF assms(2)] dll_tail [OF assms(2)]
  by (cases xs; cases ys rule: rev_cases) (auto simp: PushFrontList_def prim_defs dll_def)

lemma PushBackList_dll:
  assumes "dll s l xs" "dll s m ys" "m \<noteq> l" "set xs \<inter> set ys = {}"
  shows "\<exists>s'. PushBackList (Some l) (Some m) s = Some s' \<and> dll s' l (xs @ ys) \<and> dll s' m []"
  using assms dll_head [OF assms(1)] dll_tail [OF assms(1)] dll_head [OF assms(2)] dll_tail [OF assms(2)]
  by (cases xs rule: rev_cases; cases ys) (auto simp: PushBackList_def prim_defs dll_def)


subsection \<open>The links written by removal and insertion\<close>

lemma dll_prev_of_member:
  "dll s l (as @ e # cs) \<Longrightarrow> e_prev (entry s e) = (if as = [] then None else Some (last as))"
  by (cases as rule: rev_cases) (auto simp: dll_def)

lemma dll_next_of_member:
  "dll s l (as @ e # cs) \<Longrightarrow> e_next (entry s e) = (if cs = [] then None else Some (hd cs))"
  by (cases cs) (auto simp: dll_def)

lemma Remove_links:
  assumes "dll s l (as @ e # cs)"
  shows "\<exists>s'. Remove (Some l) (Some e) s = Some s'
     \<and> e_next (entry s' e) = None \<and> e_prev (entry s' e) = None
     \<and> (\<forall>p. e_prev (entry s e) = Some p \<longrightarrow> e_next (entry s' p) = e_next (entry s e))
     \<and> (e_prev (entry s e) = None \<longrightarrow> head (listv s' l) = e_next (entry s e))
     \<and> (\<forall>n. e_next (entry s e) = Some n \<longrightarrow> e_prev (entry s' n) = e_prev (entry s e))
     \<and> (e_next (entry s e) = None \<longrightarrow> tail (listv s' l) = e_prev (entry s e))
     \<and> dll s' l (as @ cs)"
  using assms
  by (cases as rule: rev_cases; cases cs) (auto simp: Remove_def prim_defs dll_def)

lemma InsertAfter_links:
  assumes "dll s l (as @ b # cs)" and "e \<notin> set (as @ b # cs)"
  shows "\<exists>s'. InsertAfter (Some l) (Some b) (Some e) s = Some s'
     \<and> dll s' l (as @ b # e # cs)
     \<and> e_next (entry s' b) = Some e \<and> e_prev (entry s' e) = Some b
     \<and> e_next (entry s' e) = e_next (entry s b)
     \<and> (\<forall>c. e_next (entry s b) = Some c \<longrightarrow>
           e_prev (entry s' c) = Some e \<and> tail (listv s' l) = tail (listv s l))
     \<and> (e_next (entry s b) = None \<longrightarrow> tail (listv s' l) = Some e)
     \<and> head (listv s' l) = head (listv s l)"
  using assms
  by (cases cs) (auto simp: InsertAfter_def prim_defs dll_def)

lemma dll_tail_iff_no_next:
  assumes "dll s l xs" and "b \<in> set xs"
  shows "(tail (listv s l) = Some b) = (e_next (entry s b) = None)"
proof -
  from assms(2) obtain as cs where xs: "xs = as @ b # cs"
    by (auto simp: in_set_conv_decomp)
  with assms(1) show ?thesis
    by (cases cs rule: rev_cases) (auto simp: dll_def dest: path_Nil_start)
qed

subsection \<open>Updates that leave the store as it was\<close>

lemma mem_unchanged:
  "head (listv s m) = None \<Longrightarrow> tail (listv s m) = None \<Longrightarrow>
   s\<lparr>listv := (listv s)(m := (listv s m)\<lparr>head := None, tail := None\<rparr>)\<rparr> = s"
  by (cases s; cases "listv s m") (auto simp: fun_eq_iff)

lemma PushFrontList_edges:
  assumes "dll s l xs" and "dll s m ys" and "m \<noteq> l"
  shows "\<exists>s'. PushFrontList (Some l) (Some m) s = Some s'
     \<and> (xs = [] \<longrightarrow> head (listv s' l) = head (listv s m) \<and> tail (listv s' l) = tail (listv s m)
           \<and> entry s' = entry s)
     \<and> (ys = [] \<longrightarrow> s' = s)"
  using assms dll_head [OF assms(1)] dll_tail [OF assms(1)] dll_head [OF assms(2)] dll_tail [OF assms(2)]
  by (cases xs; cases ys rule: rev_cases)
     (auto simp: PushFrontList_def prim_defs dll_def mem_unchanged)

lemma PushBackList_edges:
  assumes "dll s l xs" and "dll s m ys" and "m \<noteq> l"
  shows "\<exists>s'. PushBackList (Some l) (Some m) s = Some s'
     \<and> (xs = [] \<longrightarrow> head (listv s' l) = head (listv s m) \<and> tail (listv s' l) = tail (listv s m)
           \<and> entry s' = entry s)
     \<and> (ys = [] \<longrightarrow> s' = s)"
  using assms dll_head [OF assms(1)] dll_tail [OF assms(1)] dll_head [OF assms(2)] dll_tail [OF assms(2)]
  by (cases xs rule: rev_cases; cases ys)
     (auto simp: PushBackList_def prim_defs dll_def mem_unchanged)

lemma entry_unchanged:
  "e_next (entry s e) = None \<Longrightarrow> e_prev (entry s e) = None \<Longrightarrow>
   s\<lparr>entry := (entry s)(e := (entry s e)\<lparr>e_next := None, e_prev := None\<rparr>)\<rparr> = s"
  by (cases s; cases "entry s e") (auto simp: fun_eq_iff)

subsection \<open>The round trip\<close>

lemma push_all_dll:
  "dll s l xs \<Longrightarrow> distinct (xs @ es) \<Longrightarrow>
   \<exists>s1. push_all (Some l) (map Some es) s = Some s1 \<and> dll s1 l (xs @ es)"
proof (induction es arbitrary: s xs)
  case Nil
  then show ?case by simp
next
  case (Cons e es)
  from Cons.prems have "e \<notin> set xs" by auto
  with PushBack_dll [OF Cons.prems(1)] obtain s' where
    pb: "PushBack (Some l) (Some e) s = Some s'" and d: "dll s' l (xs @ [e])"
    by blast
  from Cons.prems have "distinct ((xs @ [e]) @ es)" by auto
  from Cons.IH [OF d this] pb show ?case by simp
qed

lemma drain_dll:
  "dll s l xs \<Longrightarrow> \<exists>s2. drain (Some l) out s = Some (out @ map Some xs, s2) \<and> dll s2 l []"
proof (induction xs arbitrary: s out)
  case Nil
  then have "drain (Some l) out s = Some (out, s)"
    by (subst drain.simps) (simp add: dll_Nil Front_def get_head_def)
  with Nil show ?case by simp
next
  case (Cons x xs)
  from Cons.prems have h: "head (listv s l) = Some x"
    by (simp add: dll_head)
  from Remove_dll [of s l "[]" x xs] Cons.prems obtain s' where
    rm: "Remove (Some l) (Some x) s = Some s'" and d: "dll s' l xs"
    by auto
  have "drain (Some l) out s = drain (Some l) (out @ [Some x]) s'"
    by (subst drain.simps) (simp add: Front_def get_head_def h rm)
  with Cons.IH [OF d, of "out @ [Some x]"] show ?case by simp
qed

subsection \<open>A node in two lists\<close>

text \<open>
  The package does not check that a node is in at most one list; the caller has to
  keep that rule. Splicing two lists that share a node links the node to itself, and
  the receiving list is no longer a well-formed chain.
\<close>

lemma self_loop_not_dll:
  assumes "head (listv s l) = Some a" and "e_next (entry s a) = Some a"
  shows "\<not> dll s l xs"
proof
  assume d: "dll s l xs"
  with assms show False
    by (cases xs; cases "tl xs") (auto simp: dll_def)
qed

lemma shared_node_splice:
  "dll shared_store 0 [1] \<and> dll shared_store 7 [1]
   \<and> (\<exists>s'. PushBackList (Some 0) (Some 7) shared_store = Some s'
        \<and> head (listv s' 0) = Some 1 \<and> e_next (entry s' 1) = Some 1
        \<and> (\<forall>xs. \<not> dll s' 0 xs))"
proof -
  have d: "dll shared_store 0 [1]" "dll shared_store 7 [1]"
    by (simp_all add: shared_store_def dll_def)
  obtain s' where r: "PushBackList (Some 0) (Some 7) shared_store = Some s'"
    and h: "head (listv s' 0) = Some 1" and n: "e_next (entry s' 1) = Some 1"
    by (simp add: PushBackList_def prim_defs shared_store_def)
  from self_loop_not_dll [OF h n] have "\<forall>xs. \<not> dll s' 0 xs" by blast
  with d r h n show ?thesis by blast
qed

section \<open>The claims\<close>

text \<open>
  C1. A valid configuration of the list at \<open>l\<close> is a well-formed chain \<open>dll s l xs\<close>:
  \<open>head\<close> is absent iff \<open>tail\<close> is absent iff the list is empty, the prev link of
  the head and the next link of the tail are absent, and the next and prev links of the
  members mirror each other along an acyclic chain. From such a configuration every
  public operation, called with its preconditions met, returns, and the list is a
  well-formed chain again. The preconditions are those of the data model: a pushed or
  inserted node \<open>e\<close> is not a member, the node \<open>b\<close> to insert at or to remove is a
  member, and a spliced list \<open>m\<close> is another valid list that shares no node with \<open>l\<close>
  (a node belongs to at most one list at a time). The four queries return without
  changing the store; the list \<open>m\<close> is valid, and empty, after a splice.
\<close>

theorem operations_preserve_invariants:
  assumes "dll s l xs"
  shows "(\<exists>s'. Reset (Some l) s = Some s' \<and> dll s' l [])
    \<and> Empty (Some l) s = Some (xs = [])
    \<and> Front (Some l) s = Some (if xs = [] then None else Some (hd xs))
    \<and> Back (Some l) s = Some (if xs = [] then None else Some (last xs))
    \<and> Len (Some l) s = Some (length xs)
    \<and> (e \<notin> set xs \<longrightarrow> (\<exists>s'. PushFront (Some l) (Some e) s = Some s' \<and> dll s' l (e # xs)))
    \<and> (e \<notin> set xs \<longrightarrow> (\<exists>s'. PushBack (Some l) (Some e) s = Some s' \<and> dll s' l (xs @ [e])))
    \<and> (m \<noteq> l \<and> dll s m ys \<and> set xs \<inter> set ys = {} \<longrightarrow>
         (\<exists>s'. PushFrontList (Some l) (Some m) s = Some s' \<and> dll s' l (ys @ xs) \<and> dll s' m []))
    \<and> (m \<noteq> l \<and> dll s m ys \<and> set xs \<inter> set ys = {} \<longrightarrow>
         (\<exists>s'. PushBackList (Some l) (Some m) s = Some s' \<and> dll s' l (xs @ ys) \<and> dll s' m []))
    \<and> (xs = as @ b # cs \<and> e \<notin> set xs \<longrightarrow>
         (\<exists>s'. InsertAfter (Some l) (Some b) (Some e) s = Some s' \<and> dll s' l (as @ b # e # cs)))
    \<and> (xs = as @ b # cs \<and> e \<notin> set xs \<longrightarrow>
         (\<exists>s'. InsertBefore (Some l) (Some b) (Some e) s = Some s' \<and> dll s' l (as @ e # b # cs)))
    \<and> (xs = as @ b # cs \<longrightarrow>
         (\<exists>s'. Remove (Some l) (Some b) s = Some s' \<and> dll s' l (as @ cs)))"
proof (intro conjI impI)
  show "\<exists>s'. Reset (Some l) s = Some s' \<and> dll s' l []"
    by (rule Reset_dll)
  show "Empty (Some l) s = Some (xs = [])"
    using dll_head [OF assms] by (simp add: Empty_def get_head_def)
  show "Front (Some l) s = Some (if xs = [] then None else Some (hd xs))"
    using dll_head [OF assms] by (simp add: Front_def get_head_def)
  show "Back (Some l) s = Some (if xs = [] then None else Some (last xs))"
    using dll_tail [OF assms] by (simp add: Back_def get_tail_def)
  show "Len (Some l) s = Some (length xs)"
    by (rule Len_dll [OF assms])
  show "\<exists>s'. PushFront (Some l) (Some e) s = Some s' \<and> dll s' l (e # xs)" if "e \<notin> set xs"
    by (rule PushFront_dll [OF assms that])
  show "\<exists>s'. PushBack (Some l) (Some e) s = Some s' \<and> dll s' l (xs @ [e])" if "e \<notin> set xs"
    by (rule PushBack_dll [OF assms that])
  show "\<exists>s'. PushFrontList (Some l) (Some m) s = Some s' \<and> dll s' l (ys @ xs) \<and> dll s' m []"
    if "m \<noteq> l \<and> dll s m ys \<and> set xs \<inter> set ys = {}"
    using that PushFrontList_dll [OF assms, of m ys] by blast
  show "\<exists>s'. PushBackList (Some l) (Some m) s = Some s' \<and> dll s' l (xs @ ys) \<and> dll s' m []"
    if "m \<noteq> l \<and> dll s m ys \<and> set xs \<inter> set ys = {}"
    using that PushBackList_dll [OF assms, of m ys] by blast
  show "\<exists>s'. InsertAfter (Some l) (Some b) (Some e) s = Some s' \<and> dll s' l (as @ b # e # cs)"
    if "xs = as @ b # cs \<and> e \<notin> set xs"
    using that assms InsertAfter_dll [of s l as b cs e] by blast
  show "\<exists>s'. InsertBefore (Some l) (Some b) (Some e) s = Some s' \<and> dll s' l (as @ e # b # cs)"
    if "xs = as @ b # cs \<and> e \<notin> set xs"
    using that assms InsertBefore_dll [of s l as b cs e] by blast
  show "\<exists>s'. Remove (Some l) (Some b) s = Some s' \<and> dll s' l (as @ cs)"
    if "xs = as @ b # cs"
    using that assms Remove_dll [of s l as b cs] by blast
qed

theorem operations_preserve_invariants_witness:
  "dll ex_store 0 [1, 2, 3] \<and> 9 \<notin> set [1, 2, 3 :: nat] \<and> (7::nat) \<noteq> 0 \<and> dll ex_store 7 [4, 5]
   \<and> set [1, 2, 3 :: nat] \<inter> set [4, 5] = {} \<and> [1, 2, 3 :: nat] = [1] @ 2 # [3]
   \<and> (\<exists>s'. Reset (Some 0) ex_store = Some s' \<and> dll s' 0 [])
   \<and> Empty (Some 0) ex_store = Some False
   \<and> Front (Some 0) ex_store = Some (Some 1)
   \<and> Back (Some 0) ex_store = Some (Some 3)
   \<and> Len (Some 0) ex_store = Some 3
   \<and> (\<exists>s'. PushFront (Some 0) (Some 9) ex_store = Some s' \<and> dll s' 0 [9, 1, 2, 3])
   \<and> (\<exists>s'. PushBack (Some 0) (Some 9) ex_store = Some s' \<and> dll s' 0 [1, 2, 3, 9])
   \<and> (\<exists>s'. PushFrontList (Some 0) (Some 7) ex_store = Some s'
         \<and> dll s' 0 [4, 5, 1, 2, 3] \<and> dll s' 7 [])
   \<and> (\<exists>s'. PushBackList (Some 0) (Some 7) ex_store = Some s'
         \<and> dll s' 0 [1, 2, 3, 4, 5] \<and> dll s' 7 [])
   \<and> (\<exists>s'. InsertAfter (Some 0) (Some 2) (Some 9) ex_store = Some s' \<and> dll s' 0 [1, 2, 9, 3])
   \<and> (\<exists>s'. InsertBefore (Some 0) (Some 2) (Some 9) ex_store = Some s' \<and> dll s' 0 [1, 9, 2, 3])
   \<and> (\<exists>s'. Remove (Some 0) (Some 2) ex_store = Some s' \<and> dll s' 0 [1, 3])"
proof -
  have d0: "dll ex_store 0 [1, 2, 3]" and d7: "dll ex_store 7 [4, 5]"
    by (simp_all add: ex_store_def dll_def)
  have h: "9 \<notin> set [1, 2, 3 :: nat]" "(7::nat) \<noteq> 0"
    "set [1, 2, 3 :: nat] \<inter> set [4, 5] = {}" "[1, 2, 3 :: nat] = [1] @ 2 # [3]"
    by simp_all
  from operations_preserve_invariants [OF d0, of 9 7 "[4, 5]" "[1]" 2 "[3]"] d7 h
  have "(\<exists>s'. Reset (Some 0) ex_store = Some s' \<and> dll s' 0 [])
   \<and> Empty (Some 0) ex_store = Some False
   \<and> Front (Some 0) ex_store = Some (Some 1)
   \<and> Back (Some 0) ex_store = Some (Some 3)
   \<and> Len (Some 0) ex_store = Some 3
   \<and> (\<exists>s'. PushFront (Some 0) (Some 9) ex_store = Some s' \<and> dll s' 0 [9, 1, 2, 3])
   \<and> (\<exists>s'. PushBack (Some 0) (Some 9) ex_store = Some s' \<and> dll s' 0 [1, 2, 3, 9])
   \<and> (\<exists>s'. PushFrontList (Some 0) (Some 7) ex_store = Some s'
         \<and> dll s' 0 [4, 5, 1, 2, 3] \<and> dll s' 7 [])
   \<and> (\<exists>s'. PushBackList (Some 0) (Some 7) ex_store = Some s'
         \<and> dll s' 0 [1, 2, 3, 4, 5] \<and> dll s' 7 [])
   \<and> (\<exists>s'. InsertAfter (Some 0) (Some 2) (Some 9) ex_store = Some s' \<and> dll s' 0 [1, 2, 9, 3])
   \<and> (\<exists>s'. InsertBefore (Some 0) (Some 2) (Some 9) ex_store = Some s' \<and> dll s' 0 [1, 9, 2, 3])
   \<and> (\<exists>s'. Remove (Some 0) (Some 2) ex_store = Some s' \<and> dll s' 0 [1, 3])"
    by simp
  with d0 d7 h show ?thesis by blast
qed

text \<open>
  C2. Removing a member \<open>e\<close> of a well-formed list, whose nodes are \<open>as\<close>, then
  \<open>e\<close>, then \<open>cs\<close>: the call returns; both links of \<open>e\<close> are \<^verbatim>\<open>nil\<close>; the
  former predecessor of \<open>e\<close> (the last of \<open>as\<close>) now points forward to the former
  successor (the first of \<open>cs\<close>), and \<open>head\<close> is set to the successor instead when
  \<open>e\<close> had no predecessor; symmetrically for the successor and \<open>tail\<close>; the list
  is well-formed again with the nodes \<open>as\<close> then \<open>cs\<close>; and \<^verbatim>\<open>Len\<close> returns one
  less than before.
\<close>

theorem Remove_member:
  assumes "dll s l (as @ e # cs)"
  shows "\<exists>s'. Remove (Some l) (Some e) s = Some s'
     \<and> e_next (entry s' e) = None \<and> e_prev (entry s' e) = None
     \<and> e_prev (entry s e) = (if as = [] then None else Some (last as))
     \<and> e_next (entry s e) = (if cs = [] then None else Some (hd cs))
     \<and> (\<forall>p. e_prev (entry s e) = Some p \<longrightarrow> e_next (entry s' p) = e_next (entry s e))
     \<and> (e_prev (entry s e) = None \<longrightarrow> head (listv s' l) = e_next (entry s e))
     \<and> (\<forall>n. e_next (entry s e) = Some n \<longrightarrow> e_prev (entry s' n) = e_prev (entry s e))
     \<and> (e_next (entry s e) = None \<longrightarrow> tail (listv s' l) = e_prev (entry s e))
     \<and> dll s' l (as @ cs)
     \<and> Len (Some l) s = Some (Suc (length (as @ cs)))
     \<and> Len (Some l) s' = Some (length (as @ cs))"
proof -
  from Remove_links [OF assms] obtain s' where
    *: "Remove (Some l) (Some e) s = Some s'
     \<and> e_next (entry s' e) = None \<and> e_prev (entry s' e) = None
     \<and> (\<forall>p. e_prev (entry s e) = Some p \<longrightarrow> e_next (entry s' p) = e_next (entry s e))
     \<and> (e_prev (entry s e) = None \<longrightarrow> head (listv s' l) = e_next (entry s e))
     \<and> (\<forall>n. e_next (entry s e) = Some n \<longrightarrow> e_prev (entry s' n) = e_prev (entry s e))
     \<and> (e_next (entry s e) = None \<longrightarrow> tail (listv s' l) = e_prev (entry s e))
     \<and> dll s' l (as @ cs)" ..
  then have d: "dll s' l (as @ cs)" by (elim conjE)
  have before: "Len (Some l) s = Some (Suc (length (as @ cs)))"
    using Len_dll [OF assms] by simp
  have after: "Len (Some l) s' = Some (length (as @ cs))"
    using Len_dll [OF d] .
  note pn = dll_prev_of_member [OF assms] dll_next_of_member [OF assms]
  show ?thesis
    by (rule exI [of _ s'], intro conjI) (use * before after pn in blast)+
qed

theorem Remove_member_witness:
  "dll ex_store 0 ([1] @ 2 # [3]) \<and> dll ex_store 0 ([] @ 1 # [2, 3])
   \<and> dll ex_store 0 ([1, 2] @ 3 # [])
   \<and> (\<exists>s'. Remove (Some 0) (Some 2) ex_store = Some s'
       \<and> e_next (entry s' 2) = None \<and> e_prev (entry s' 2) = None
       \<and> e_prev (entry ex_store 2) = Some 1 \<and> e_next (entry ex_store 2) = Some 3
       \<and> e_next (entry s' 1) = Some 3 \<and> e_prev (entry s' 3) = Some 1
       \<and> dll s' 0 [1, 3]
       \<and> Len (Some 0) ex_store = Some 3 \<and> Len (Some 0) s' = Some 2)
   \<and> (\<exists>s'. Remove (Some 0) (Some 1) ex_store = Some s'
       \<and> e_next (entry s' 1) = None \<and> e_prev (entry s' 1) = None
       \<and> e_prev (entry ex_store 1) = None \<and> e_next (entry ex_store 1) = Some 2
       \<and> head (listv s' 0) = Some 2 \<and> e_prev (entry s' 2) = None
       \<and> dll s' 0 [2, 3] \<and> Len (Some 0) s' = Some 2)
   \<and> (\<exists>s'. Remove (Some 0) (Some 3) ex_store = Some s'
       \<and> e_next (entry s' 3) = None \<and> e_prev (entry s' 3) = None
       \<and> e_prev (entry ex_store 3) = Some 2 \<and> e_next (entry ex_store 3) = None
       \<and> tail (listv s' 0) = Some 2 \<and> e_next (entry s' 2) = None
       \<and> dll s' 0 [1, 2] \<and> Len (Some 0) s' = Some 2)"
proof -
  have h: "dll ex_store 0 ([1] @ 2 # [3])" "dll ex_store 0 ([] @ 1 # [2, 3])"
    "dll ex_store 0 ([1, 2] @ 3 # [])"
    by (simp_all add: ex_store_def dll_def)
  have v: "e_prev (entry ex_store 1) = None" "e_next (entry ex_store 1) = Some 2"
    "e_prev (entry ex_store 2) = Some 1" "e_next (entry ex_store 2) = Some 3"
    "e_prev (entry ex_store 3) = Some 2" "e_next (entry ex_store 3) = None"
    by (simp_all add: ex_store_def)
  from Remove_member [OF h(1)] v
  have a: "\<exists>s'. Remove (Some 0) (Some 2) ex_store = Some s'
       \<and> e_next (entry s' 2) = None \<and> e_prev (entry s' 2) = None
       \<and> e_prev (entry ex_store 2) = Some 1 \<and> e_next (entry ex_store 2) = Some 3
       \<and> e_next (entry s' 1) = Some 3 \<and> e_prev (entry s' 3) = Some 1
       \<and> dll s' 0 [1, 3]
       \<and> Len (Some 0) ex_store = Some 3 \<and> Len (Some 0) s' = Some 2"
    by (auto simp: numeral_3_eq_3)
  from Remove_member [OF h(2)] v
  have b: "\<exists>s'. Remove (Some 0) (Some 1) ex_store = Some s'
       \<and> e_next (entry s' 1) = None \<and> e_prev (entry s' 1) = None
       \<and> e_prev (entry ex_store 1) = None \<and> e_next (entry ex_store 1) = Some 2
       \<and> head (listv s' 0) = Some 2 \<and> e_prev (entry s' 2) = None
       \<and> dll s' 0 [2, 3] \<and> Len (Some 0) s' = Some 2"
    by auto
  from Remove_member [OF h(3)] v
  have c: "\<exists>s'. Remove (Some 0) (Some 3) ex_store = Some s'
       \<and> e_next (entry s' 3) = None \<and> e_prev (entry s' 3) = None
       \<and> e_prev (entry ex_store 3) = Some 2 \<and> e_next (entry ex_store 3) = None
       \<and> tail (listv s' 0) = Some 2 \<and> e_next (entry s' 2) = None
       \<and> dll s' 0 [1, 2] \<and> Len (Some 0) s' = Some 2"
    by auto
  from h a b c show ?thesis by blast
qed

text \<open>
  C3. For two valid lists \<open>l\<close> and \<open>m\<close>, \<open>m\<close> distinct from \<open>l\<close>, whose nodes are
  \<open>xs\<close> and \<open>ys\<close> (a node belongs to at most one list at a time, so the two share no
  node): \<^verbatim>\<open>PushFrontList\<close> and \<^verbatim>\<open>PushBackList\<close> return; afterwards \<open>m\<close> is empty,
  \<open>l\<close> holds the nodes of both in their old relative order, those of \<open>m\<close> before those
  of \<open>l\<close> for \<^verbatim>\<open>PushFrontList\<close> and after them for \<^verbatim>\<open>PushBackList\<close>, and
  \<^verbatim>\<open>Len\<close> of \<open>l\<close> returns the sum of the two lengths returned before the call. If
  \<open>l\<close> was empty it takes over \<open>head\<close> and \<open>tail\<close> of \<open>m\<close> and no link is written;
  if \<open>m\<close> was empty the whole store is unchanged.
\<close>

theorem PushList_splice:
  assumes "dll s l xs" and "dll s m ys" and "m \<noteq> l" and "set xs \<inter> set ys = {}"
  shows "(\<exists>s'. PushFrontList (Some l) (Some m) s = Some s'
          \<and> Empty (Some m) s' = Some True \<and> dll s' m []
          \<and> dll s' l (ys @ xs)
          \<and> Len (Some l) s = Some (length xs) \<and> Len (Some m) s = Some (length ys)
          \<and> Len (Some l) s' = Some (length xs + length ys)
          \<and> (xs = [] \<longrightarrow> head (listv s' l) = head (listv s m)
                \<and> tail (listv s' l) = tail (listv s m) \<and> entry s' = entry s)
          \<and> (ys = [] \<longrightarrow> s' = s))
       \<and> (\<exists>s'. PushBackList (Some l) (Some m) s = Some s'
          \<and> Empty (Some m) s' = Some True \<and> dll s' m []
          \<and> dll s' l (xs @ ys)
          \<and> Len (Some l) s = Some (length xs) \<and> Len (Some m) s = Some (length ys)
          \<and> Len (Some l) s' = Some (length xs + length ys)
          \<and> (xs = [] \<longrightarrow> head (listv s' l) = head (listv s m)
                \<and> tail (listv s' l) = tail (listv s m) \<and> entry s' = entry s)
          \<and> (ys = [] \<longrightarrow> s' = s))"
proof (rule conjI)
  note lens = Len_dll [OF assms(1)] Len_dll [OF assms(2)]
  from PushFrontList_dll [OF assms] obtain s' where
    r: "PushFrontList (Some l) (Some m) s = Some s'" and d: "dll s' l (ys @ xs)" and e: "dll s' m []"
    by blast
  from e have em: "Empty (Some m) s' = Some True"
    by (simp add: dll_Nil Empty_def get_head_def)
  from Len_dll [OF d] have after: "Len (Some l) s' = Some (length xs + length ys)"
    by (simp add: add.commute)
  from PushFrontList_edges [OF assms(1-3)] r
  have edges: "xs = [] \<longrightarrow> head (listv s' l) = head (listv s m)
                \<and> tail (listv s' l) = tail (listv s m) \<and> entry s' = entry s"
    "ys = [] \<longrightarrow> s' = s"
    by auto
  show "\<exists>s'. PushFrontList (Some l) (Some m) s = Some s'
          \<and> Empty (Some m) s' = Some True \<and> dll s' m []
          \<and> dll s' l (ys @ xs)
          \<and> Len (Some l) s = Some (length xs) \<and> Len (Some m) s = Some (length ys)
          \<and> Len (Some l) s' = Some (length xs + length ys)
          \<and> (xs = [] \<longrightarrow> head (listv s' l) = head (listv s m)
                \<and> tail (listv s' l) = tail (listv s m) \<and> entry s' = entry s)
          \<and> (ys = [] \<longrightarrow> s' = s)"
    by (rule exI [of _ s'], intro conjI) (rule r em e d lens after edges)+
next
  note lens = Len_dll [OF assms(1)] Len_dll [OF assms(2)]
  from PushBackList_dll [OF assms] obtain s' where
    r: "PushBackList (Some l) (Some m) s = Some s'" and d: "dll s' l (xs @ ys)" and e: "dll s' m []"
    by blast
  from e have em: "Empty (Some m) s' = Some True"
    by (simp add: dll_Nil Empty_def get_head_def)
  from Len_dll [OF d] have after: "Len (Some l) s' = Some (length xs + length ys)"
    by simp
  from PushBackList_edges [OF assms(1-3)] r
  have edges: "xs = [] \<longrightarrow> head (listv s' l) = head (listv s m)
                \<and> tail (listv s' l) = tail (listv s m) \<and> entry s' = entry s"
    "ys = [] \<longrightarrow> s' = s"
    by auto
  show "\<exists>s'. PushBackList (Some l) (Some m) s = Some s'
          \<and> Empty (Some m) s' = Some True \<and> dll s' m []
          \<and> dll s' l (xs @ ys)
          \<and> Len (Some l) s = Some (length xs) \<and> Len (Some m) s = Some (length ys)
          \<and> Len (Some l) s' = Some (length xs + length ys)
          \<and> (xs = [] \<longrightarrow> head (listv s' l) = head (listv s m)
                \<and> tail (listv s' l) = tail (listv s m) \<and> entry s' = entry s)
          \<and> (ys = [] \<longrightarrow> s' = s)"
    by (rule exI [of _ s'], intro conjI) (rule r em e d lens after edges)+
qed

theorem PushList_splice_witness:
  "dll ex_store 0 [1, 2, 3] \<and> dll ex_store 7 [4, 5] \<and> dll ex_store 3 [] \<and> (7::nat) \<noteq> 0
   \<and> set [1, 2, 3 :: nat] \<inter> set [4, 5] = {}
   \<and> (\<exists>s'. PushFrontList (Some 0) (Some 7) ex_store = Some s'
        \<and> Empty (Some 7) s' = Some True \<and> dll s' 0 [4, 5, 1, 2, 3]
        \<and> Len (Some 0) ex_store = Some 3 \<and> Len (Some 7) ex_store = Some 2
        \<and> Len (Some 0) s' = Some 5)
   \<and> (\<exists>s'. PushBackList (Some 0) (Some 7) ex_store = Some s'
        \<and> Empty (Some 7) s' = Some True \<and> dll s' 0 [1, 2, 3, 4, 5]
        \<and> Len (Some 0) s' = Some 5)
   \<and> (\<exists>s'. PushFrontList (Some 3) (Some 7) ex_store = Some s'
        \<and> head (listv s' 3) = Some 4 \<and> tail (listv s' 3) = Some 5 \<and> entry s' = entry ex_store)
   \<and> (\<exists>s'. PushBackList (Some 3) (Some 7) ex_store = Some s'
        \<and> head (listv s' 3) = Some 4 \<and> tail (listv s' 3) = Some 5 \<and> entry s' = entry ex_store)
   \<and> PushFrontList (Some 0) (Some 3) ex_store = Some ex_store
   \<and> PushBackList (Some 0) (Some 3) ex_store = Some ex_store"
proof -
  have d0: "dll ex_store 0 [1, 2, 3]" and d7: "dll ex_store 7 [4, 5]" and d3: "dll ex_store 3 []"
    by (simp_all add: ex_store_def dll_def)
  have ne: "(7::nat) \<noteq> 0" "(7::nat) \<noteq> 3" "(3::nat) \<noteq> 0" by simp_all
  have dj: "set [1, 2, 3 :: nat] \<inter> set [4, 5] = {}" "set ([] :: nat list) \<inter> set [4, 5 :: nat] = {}"
    "set [1, 2, 3 :: nat] \<inter> set [] = {}"
    by simp_all
  have v: "head (listv ex_store 7) = Some 4" "tail (listv ex_store 7) = Some 5"
    by (simp_all add: ex_store_def)
  from PushList_splice [OF d0 d7 ne(1) dj(1)]
  have a: "(\<exists>s'. PushFrontList (Some 0) (Some 7) ex_store = Some s'
        \<and> Empty (Some 7) s' = Some True \<and> dll s' 0 [4, 5, 1, 2, 3]
        \<and> Len (Some 0) ex_store = Some 3 \<and> Len (Some 7) ex_store = Some 2
        \<and> Len (Some 0) s' = Some 5)"
    and b: "(\<exists>s'. PushBackList (Some 0) (Some 7) ex_store = Some s'
        \<and> Empty (Some 7) s' = Some True \<and> dll s' 0 [1, 2, 3, 4, 5]
        \<and> Len (Some 0) s' = Some 5)"
    by auto
  from PushList_splice [OF d3 d7 ne(2) dj(2)] v
  have c: "(\<exists>s'. PushFrontList (Some 3) (Some 7) ex_store = Some s'
        \<and> head (listv s' 3) = Some 4 \<and> tail (listv s' 3) = Some 5 \<and> entry s' = entry ex_store)"
    and d: "(\<exists>s'. PushBackList (Some 3) (Some 7) ex_store = Some s'
        \<and> head (listv s' 3) = Some 4 \<and> tail (listv s' 3) = Some 5 \<and> entry s' = entry ex_store)"
    by auto
  from PushList_splice [OF d0 d3 ne(3) dj(3)]
  have e: "PushFrontList (Some 0) (Some 3) ex_store = Some ex_store"
    and f: "PushBackList (Some 0) (Some 3) ex_store = Some ex_store"
    by auto
  from d0 d7 d3 ne(1) dj(1) a b c d e f show ?thesis by blast
qed

text \<open>
  C4. For a node \<open>e\<close> that is in no list, so that it is neither the head nor the tail
  of \<open>l\<close>, \<^verbatim>\<open>PushFront\<close> sets the next link of \<open>e\<close> to the old head and its prev
  link to \<^verbatim>\<open>nil\<close>, sets the prev link of the old head to \<open>e\<close> when there was one
  (leaving \<open>tail\<close> as it was) and sets \<open>tail\<close> to \<open>e\<close> otherwise, and sets \<open>head\<close>
  to \<open>e\<close>. \<^verbatim>\<open>PushBack\<close> does the same with next and prev, head and tail exchanged.
  Both hold for the empty and the non-empty list alike.
\<close>

theorem Push_links:
  assumes "head (listv s l) \<noteq> Some e" and "tail (listv s l) \<noteq> Some e"
  shows "(\<exists>s'. PushFront (Some l) (Some e) s = Some s'
          \<and> e_next (entry s' e) = head (listv s l) \<and> e_prev (entry s' e) = None
          \<and> (\<forall>h. head (listv s l) = Some h \<longrightarrow>
                e_prev (entry s' h) = Some e \<and> tail (listv s' l) = tail (listv s l))
          \<and> (head (listv s l) = None \<longrightarrow> tail (listv s' l) = Some e)
          \<and> head (listv s' l) = Some e)
       \<and> (\<exists>s'. PushBack (Some l) (Some e) s = Some s'
          \<and> e_prev (entry s' e) = tail (listv s l) \<and> e_next (entry s' e) = None
          \<and> (\<forall>t. tail (listv s l) = Some t \<longrightarrow>
                e_next (entry s' t) = Some e \<and> head (listv s' l) = head (listv s l))
          \<and> (tail (listv s l) = None \<longrightarrow> head (listv s' l) = Some e)
          \<and> tail (listv s' l) = Some e)"
  using assms by (auto simp: PushFront_def PushBack_def prim_defs)

theorem Push_links_witness:
  "(head (listv ex_store 0) \<noteq> Some 9 \<and> tail (listv ex_store 0) \<noteq> Some 9
    \<and> head (listv ex_store 0) = Some 1 \<and> tail (listv ex_store 0) = Some 3
    \<and> (\<exists>s'. PushFront (Some 0) (Some 9) ex_store = Some s'
          \<and> e_next (entry s' 9) = Some 1 \<and> e_prev (entry s' 9) = None
          \<and> e_prev (entry s' 1) = Some 9 \<and> tail (listv s' 0) = Some 3
          \<and> head (listv s' 0) = Some 9)
    \<and> (\<exists>s'. PushBack (Some 0) (Some 9) ex_store = Some s'
          \<and> e_prev (entry s' 9) = Some 3 \<and> e_next (entry s' 9) = None
          \<and> e_next (entry s' 3) = Some 9 \<and> head (listv s' 0) = Some 1
          \<and> tail (listv s' 0) = Some 9))
   \<and> (head (listv zero_store 0) = None \<and> tail (listv zero_store 0) = None
    \<and> (\<exists>s'. PushFront (Some 0) (Some 9) zero_store = Some s'
          \<and> e_next (entry s' 9) = None \<and> e_prev (entry s' 9) = None
          \<and> tail (listv s' 0) = Some 9 \<and> head (listv s' 0) = Some 9)
    \<and> (\<exists>s'. PushBack (Some 0) (Some 9) zero_store = Some s'
          \<and> e_prev (entry s' 9) = None \<and> e_next (entry s' 9) = None
          \<and> head (listv s' 0) = Some 9 \<and> tail (listv s' 0) = Some 9))"
proof -
  have a: "head (listv ex_store 0) = Some 1" "tail (listv ex_store 0) = Some 3"
    by (simp_all add: ex_store_def)
  have b: "head (listv zero_store 0) = None" "tail (listv zero_store 0) = None"
    by (simp_all add: zero_store_def)
  from Push_links [of ex_store 0 9] Push_links [of zero_store 0 9] a b show ?thesis
    by simp
qed

text \<open>
  C5. For a member \<open>b\<close> of a valid list, whose nodes are \<open>as\<close>, then \<open>b\<close>, then
  \<open>cs\<close>, and a node \<open>e\<close> that is not a member: \<^verbatim>\<open>InsertAfter\<close> returns and places
  \<open>e\<close> immediately after \<open>b\<close> in the chain. It sets the next link of \<open>b\<close> to \<open>e\<close>,
  the prev link of \<open>e\<close> to \<open>b\<close> and the next link of \<open>e\<close> to the old successor of
  \<open>b\<close>; it sets the prev link of that successor to \<open>e\<close> (and leaves \<open>tail\<close>) when
  there is one, and sets \<open>tail\<close> to \<open>e\<close> when there is none, which is the case exactly
  when \<open>b\<close> was the tail; \<open>head\<close> is unchanged.
\<close>

theorem InsertAfter_member:
  assumes "dll s l (as @ b # cs)" and "e \<notin> set (as @ b # cs)"
  shows "\<exists>s'. InsertAfter (Some l) (Some b) (Some e) s = Some s'
     \<and> dll s' l (as @ b # e # cs)
     \<and> e_next (entry s' b) = Some e \<and> e_prev (entry s' e) = Some b
     \<and> e_next (entry s' e) = e_next (entry s b)
     \<and> (\<forall>c. e_next (entry s b) = Some c \<longrightarrow>
           e_prev (entry s' c) = Some e \<and> tail (listv s' l) = tail (listv s l))
     \<and> (e_next (entry s b) = None \<longrightarrow> tail (listv s' l) = Some e)
     \<and> head (listv s' l) = head (listv s l)
     \<and> e_next (entry s b) = (if cs = [] then None else Some (hd cs))
     \<and> (tail (listv s l) = Some b) = (e_next (entry s b) = None)"
proof -
  from InsertAfter_links [OF assms] obtain s' where
    *: "InsertAfter (Some l) (Some b) (Some e) s = Some s'
     \<and> dll s' l (as @ b # e # cs)
     \<and> e_next (entry s' b) = Some e \<and> e_prev (entry s' e) = Some b
     \<and> e_next (entry s' e) = e_next (entry s b)
     \<and> (\<forall>c. e_next (entry s b) = Some c \<longrightarrow>
           e_prev (entry s' c) = Some e \<and> tail (listv s' l) = tail (listv s l))
     \<and> (e_next (entry s b) = None \<longrightarrow> tail (listv s' l) = Some e)
     \<and> head (listv s' l) = head (listv s l)" ..
  have t: "(tail (listv s l) = Some b) = (e_next (entry s b) = None)"
    using dll_tail_iff_no_next [OF assms(1), of b] by simp
  note n = dll_next_of_member [OF assms(1)]
  show ?thesis
    by (rule exI [of _ s'], intro conjI) (use * t n in blast)+
qed

theorem InsertAfter_member_witness:
  "dll ex_store 0 ([1] @ 2 # [3]) \<and> 9 \<notin> set ([1] @ 2 # [3 :: nat])
   \<and> dll ex_store 7 ([4] @ 5 # []) \<and> 9 \<notin> set ([4] @ 5 # ([] :: nat list))
   \<and> (\<exists>s'. InsertAfter (Some 0) (Some 2) (Some 9) ex_store = Some s'
        \<and> dll s' 0 [1, 2, 9, 3]
        \<and> e_next (entry s' 2) = Some 9 \<and> e_prev (entry s' 9) = Some 2
        \<and> e_next (entry s' 9) = Some 3 \<and> e_prev (entry s' 3) = Some 9
        \<and> tail (listv s' 0) = Some 3 \<and> head (listv s' 0) = Some 1)
   \<and> (\<exists>s'. InsertAfter (Some 7) (Some 5) (Some 9) ex_store = Some s'
        \<and> dll s' 7 [4, 5, 9]
        \<and> e_next (entry s' 5) = Some 9 \<and> e_prev (entry s' 9) = Some 5
        \<and> e_next (entry s' 9) = None
        \<and> tail (listv s' 7) = Some 9 \<and> head (listv s' 7) = Some 4)"
proof -
  have h: "dll ex_store 0 ([1] @ 2 # [3])" "9 \<notin> set ([1] @ 2 # [3 :: nat])"
    and k: "dll ex_store 7 ([4] @ 5 # [])" "9 \<notin> set ([4] @ 5 # ([] :: nat list))"
    by (simp_all add: ex_store_def dll_def)
  have v: "e_next (entry ex_store 2) = Some 3" "e_next (entry ex_store 5) = None"
    "tail (listv ex_store 0) = Some 3" "head (listv ex_store 0) = Some 1"
    "head (listv ex_store 7) = Some 4"
    by (simp_all add: ex_store_def)
  from InsertAfter_member [OF h] obtain s' where
    a: "InsertAfter (Some 0) (Some 2) (Some 9) ex_store = Some s'
     \<and> dll s' 0 ([1] @ 2 # 9 # [3])
     \<and> e_next (entry s' 2) = Some 9 \<and> e_prev (entry s' 9) = Some 2
     \<and> e_next (entry s' 9) = e_next (entry ex_store 2)
     \<and> (\<forall>c. e_next (entry ex_store 2) = Some c \<longrightarrow>
           e_prev (entry s' c) = Some 9 \<and> tail (listv s' 0) = tail (listv ex_store 0))
     \<and> (e_next (entry ex_store 2) = None \<longrightarrow> tail (listv s' 0) = Some 9)
     \<and> head (listv s' 0) = head (listv ex_store 0)
     \<and> e_next (entry ex_store 2) = (if [3 :: nat] = [] then None else Some (hd [3]))
     \<and> (tail (listv ex_store 0) = Some 2) = (e_next (entry ex_store 2) = None)" ..
  from InsertAfter_member [OF k] obtain s'' where
    b: "InsertAfter (Some 7) (Some 5) (Some 9) ex_store = Some s''
     \<and> dll s'' 7 ([4] @ 5 # 9 # [])
     \<and> e_next (entry s'' 5) = Some 9 \<and> e_prev (entry s'' 9) = Some 5
     \<and> e_next (entry s'' 9) = e_next (entry ex_store 5)
     \<and> (\<forall>c. e_next (entry ex_store 5) = Some c \<longrightarrow>
           e_prev (entry s'' c) = Some 9 \<and> tail (listv s'' 7) = tail (listv ex_store 7))
     \<and> (e_next (entry ex_store 5) = None \<longrightarrow> tail (listv s'' 7) = Some 9)
     \<and> head (listv s'' 7) = head (listv ex_store 7)
     \<and> e_next (entry ex_store 5) = (if ([] :: nat list) = [] then None else Some (hd []))
     \<and> (tail (listv ex_store 7) = Some 5) = (e_next (entry ex_store 5) = None)" ..
  from a v have a': "InsertAfter (Some 0) (Some 2) (Some 9) ex_store = Some s'
        \<and> dll s' 0 [1, 2, 9, 3]
        \<and> e_next (entry s' 2) = Some 9 \<and> e_prev (entry s' 9) = Some 2
        \<and> e_next (entry s' 9) = Some 3 \<and> e_prev (entry s' 3) = Some 9
        \<and> tail (listv s' 0) = Some 3 \<and> head (listv s' 0) = Some 1"
    by simp
  from b v have b': "InsertAfter (Some 7) (Some 5) (Some 9) ex_store = Some s''
        \<and> dll s'' 7 [4, 5, 9]
        \<and> e_next (entry s'' 5) = Some 9 \<and> e_prev (entry s'' 9) = Some 5
        \<and> e_next (entry s'' 9) = None
        \<and> tail (listv s'' 7) = Some 9 \<and> head (listv s'' 7) = Some 4"
    by simp
  from a' b' h k show ?thesis by blast
qed

text \<open>
  C6. Round trip: pushing any sequence of distinct nodes to the back of an empty list,
  in order, and then taking the front and removing it until the list is empty returns
  (both loops end), collects the nodes in exactly the order of insertion, and leaves
  the list empty. The links the nodes carried before are irrelevant.
\<close>

theorem push_back_drain_round_trip:
  assumes "distinct es" and "head (listv s l) = None" and "tail (listv s l) = None"
  shows "\<exists>s1 s2. push_all (Some l) (map Some es) s = Some s1
        \<and> drain (Some l) [] s1 = Some (map Some es, s2)
        \<and> Empty (Some l) s2 = Some True"
proof -
  from assms have "dll s l []" by (simp add: dll_Nil)
  from push_all_dll [OF this, of es] assms(1) obtain s1 where
    p: "push_all (Some l) (map Some es) s = Some s1" and d1: "dll s1 l es"
    by auto
  from drain_dll [OF d1, of "[]"] obtain s2 where
    d: "drain (Some l) [] s1 = Some (map Some es, s2)" and d2: "dll s2 l []"
    by auto
  from d2 have "Empty (Some l) s2 = Some True"
    by (simp add: dll_Nil Empty_def get_head_def)
  with p d show ?thesis by blast
qed

theorem push_back_drain_round_trip_witness:
  "distinct [8, 9, 6 :: nat] \<and> head (listv ex_store 3) = None \<and> tail (listv ex_store 3) = None
   \<and> (\<exists>s1 s2. push_all (Some 3) (map Some [8, 9, 6]) ex_store = Some s1
        \<and> drain (Some 3) [] s1 = Some (map Some [8, 9, 6], s2)
        \<and> Empty (Some 3) s2 = Some True)"
proof -
  have h: "distinct [8, 9, 6 :: nat]" "head (listv ex_store 3) = None" "tail (listv ex_store 3) = None"
    by (simp_all add: ex_store_def)
  from push_back_drain_round_trip [OF h] h show ?thesis by blast
qed

text \<open>
  C7. \<^verbatim>\<open>Reset\<close> sets \<open>head\<close> and \<open>tail\<close> of the list to \<^verbatim>\<open>nil\<close> and changes
  nothing else: the links of every node, also of the nodes that were in the list, and
  every other list are as before.
\<close>

theorem Reset_frame:
  "\<exists>s'. Reset (Some l) s = Some s' \<and> head (listv s' l) = None \<and> tail (listv s' l) = None
     \<and> entry s' = entry s \<and> (\<forall>k. k \<noteq> l \<longrightarrow> listv s' k = listv s k)"
  by (simp add: Reset_def set_head_def set_tail_def)

theorem Reset_frame_witness:
  "\<exists>s'. Reset (Some 0) ex_store = Some s' \<and> head (listv s' 0) = None \<and> tail (listv s' 0) = None
     \<and> entry s' = entry ex_store \<and> e_next (entry s' 1) = Some 2 \<and> e_prev (entry s' 3) = Some 2
     \<and> (7 \<noteq> (0::nat) \<and> listv s' 7 = listv ex_store 7)"
proof -
  from Reset_frame [of 0 ex_store] obtain s' where r: "Reset (Some 0) ex_store = Some s'"
    and h: "head (listv s' 0) = None" and t: "tail (listv s' 0) = None"
    and e: "entry s' = entry ex_store" and k: "\<forall>k. k \<noteq> 0 \<longrightarrow> listv s' k = listv ex_store k"
    by blast
  from k have "listv s' 7 = listv ex_store 7" by simp
  moreover have "e_next (entry ex_store 1) = Some 2" "e_prev (entry ex_store 3) = Some 2"
    by (simp_all add: ex_store_def)
  ultimately show ?thesis using r h t e by simp
qed

text \<open>
  C8. On an empty list, in particular on the zero value of \<^verbatim>\<open>List\<close> with no
  initialisation, every query returns without a panic: \<^verbatim>\<open>Empty\<close> returns true,
  \<^verbatim>\<open>Front\<close> and \<^verbatim>\<open>Back\<close> return \<^verbatim>\<open>nil\<close>, and \<^verbatim>\<open>Len\<close> returns 0.
\<close>

theorem empty_list_queries:
  assumes "head (listv s l) = None" and "tail (listv s l) = None"
  shows "Empty (Some l) s = Some True \<and> Front (Some l) s = Some None
       \<and> Back (Some l) s = Some None \<and> Len (Some l) s = Some 0"
  using assms
  by (simp add: Empty_def Front_def Back_def Len_def get_head_def get_tail_def Len_loop.simps)

theorem empty_list_queries_witness:
  "head (listv zero_store 0) = None \<and> tail (listv zero_store 0) = None
   \<and> Empty (Some 0) zero_store = Some True \<and> Front (Some 0) zero_store = Some None
   \<and> Back (Some 0) zero_store = Some None \<and> Len (Some 0) zero_store = Some 0"
  using empty_list_queries [of zero_store 0] by (simp add: zero_store_def)

text \<open>
  C9. \<^verbatim>\<open>PushFront\<close> and \<^verbatim>\<open>PushBack\<close> overwrite both links of the pushed node
  and read neither: two runs on stores that differ at most in the links of that node
  return, and return the same store. Stale links left in the node have no influence.
\<close>

theorem Push_ignores_stale_links:
  assumes "listv s1 = listv s2" and "\<forall>a. a \<noteq> e \<longrightarrow> entry s1 a = entry s2 a"
  shows "(\<exists>s'. PushFront (Some l) (Some e) s1 = Some s' \<and> PushFront (Some l) (Some e) s2 = Some s')
       \<and> (\<exists>s'. PushBack (Some l) (Some e) s1 = Some s' \<and> PushBack (Some l) (Some e) s2 = Some s')"
proof -
  obtain n1 p1 where e1: "entry s1 e = \<lparr>e_next = n1, e_prev = p1\<rparr>"
    by (cases "entry s1 e") auto
  obtain n2 p2 where e2: "entry s2 e = \<lparr>e_next = n2, e_prev = p2\<rparr>"
    by (cases "entry s2 e") auto
  have s2: "s2 = s1\<lparr>entry := (entry s1)(e := \<lparr>e_next = n2, e_prev = p2\<rparr>)\<rparr>"
    using assms e2 by (cases s1; cases s2) (auto simp: fun_eq_iff)
  show ?thesis
    by (auto simp: s2 e1 PushFront_def PushBack_def prim_defs fun_eq_iff)
qed

theorem Push_ignores_stale_links_witness:
  "listv ex_store = listv (ex_store\<lparr>entry := (entry ex_store)(9 := \<lparr>e_next = None, e_prev = None\<rparr>)\<rparr>)
   \<and> entry ex_store 1
         = entry (ex_store\<lparr>entry := (entry ex_store)(9 := \<lparr>e_next = None, e_prev = None\<rparr>)\<rparr>) 1
   \<and> entry ex_store 9 \<noteq> \<lparr>e_next = None, e_prev = None\<rparr>
   \<and> (\<exists>s'. PushFront (Some 0) (Some 9) ex_store = Some s'
         \<and> PushFront (Some 0) (Some 9)
             (ex_store\<lparr>entry := (entry ex_store)(9 := \<lparr>e_next = None, e_prev = None\<rparr>)\<rparr>) = Some s')
   \<and> (\<exists>s'. PushBack (Some 0) (Some 9) ex_store = Some s'
         \<and> PushBack (Some 0) (Some 9)
             (ex_store\<lparr>entry := (entry ex_store)(9 := \<lparr>e_next = None, e_prev = None\<rparr>)\<rparr>) = Some s')"
proof -
  let ?s2 = "ex_store\<lparr>entry := (entry ex_store)(9 := \<lparr>e_next = None, e_prev = None\<rparr>)\<rparr>"
  have h1: "listv ex_store = listv ?s2" by simp
  have h2: "\<forall>a. a \<noteq> 9 \<longrightarrow> entry ex_store a = entry ?s2 a" by simp
  have h3: "entry ex_store 9 \<noteq> \<lparr>e_next = None, e_prev = None\<rparr>" by (simp add: ex_store_def)
  have h4: "entry ex_store 1 = entry ?s2 1" by simp
  from Push_ignores_stale_links [OF h1 h2, of 0] h1 h3 h4 show ?thesis by blast
qed

text \<open>
  C10. Removing a node whose two links are \<^verbatim>\<open>nil\<close> and which is neither the head
  nor the tail of the list changes nothing: \<open>head\<close> and \<open>tail\<close> and the links of
  every other node are as before, and the links of the node are set to \<^verbatim>\<open>nil\<close>
  again, so that the store after the call is the store before it.
\<close>

theorem Remove_unlinked_nonmember:
  assumes "e_next (entry s e) = None" and "e_prev (entry s e) = None"
    and "head (listv s l) \<noteq> Some e" and "tail (listv s l) \<noteq> Some e"
  shows "\<exists>s'. Remove (Some l) (Some e) s = Some s'
       \<and> listv s' = listv s \<and> (\<forall>a. a \<noteq> e \<longrightarrow> entry s' a = entry s a)
       \<and> e_next (entry s' e) = None \<and> e_prev (entry s' e) = None \<and> s' = s"
  using assms by (simp add: Remove_def prim_defs entry_unchanged)

theorem Remove_unlinked_nonmember_witness:
  "e_next (entry ex_store 8) = None \<and> e_prev (entry ex_store 8) = None
   \<and> head (listv ex_store 0) \<noteq> Some 8 \<and> tail (listv ex_store 0) \<noteq> Some 8
   \<and> (\<exists>s'. Remove (Some 0) (Some 8) ex_store = Some s'
       \<and> listv s' = listv ex_store \<and> entry s' 1 = entry ex_store 1
       \<and> e_next (entry s' 8) = None \<and> e_prev (entry s' 8) = None \<and> s' = ex_store)"
proof -
  have h: "e_next (entry ex_store 8) = None" "e_prev (entry ex_store 8) = None"
    "head (listv ex_store 0) \<noteq> Some 8" "tail (listv ex_store 0) \<noteq> Some 8"
    by (simp_all add: ex_store_def)
  from Remove_unlinked_nonmember [OF h] h show ?thesis by auto
qed

end
